theory Spec2Isabelle
  imports Main "HOL-Library.AList" "HOL-Library.Sublist"
begin

section \<open>Strings\<close>

text \<open>
  Python strings are modelled as \<^typ>\<open>string\<close>, read as ASCII text. The
  character classes below are the ones the scripts use: the regular expression class
  \<^verbatim>\<open>[a-zA-Z0-9]\<close>, the white space \<^verbatim>\<open>str.strip()\<close> removes, and the
  letters \<^verbatim>\<open>str.lower()\<close> changes.
\<close>

definition is_alnum :: "char \<Rightarrow> bool" where
  "is_alnum c =
     (let n = (of_char c :: nat)
      in (48 \<le> n \<and> n \<le> 57) \<or> (65 \<le> n \<and> n \<le> 90) \<or> (97 \<le> n \<and> n \<le> 122))"

definition is_space :: "char \<Rightarrow> bool" where
  "is_space c =
     (let n = (of_char c :: nat)
      in (9 \<le> n \<and> n \<le> 13) \<or> (28 \<le> n \<and> n \<le> 32))"

definition lower_char :: "char \<Rightarrow> char" where
  "lower_char c =
     (let n = (of_char c :: nat)
      in if 65 \<le> n \<and> n \<le> 90 then char_of (n + 32) else c)"

definition lower :: "string \<Rightarrow> string" where
  "lower s = map lower_char s"

text \<open>\<^verbatim>\<open>s.strip()\<close> and \<^verbatim>\<open>s.strip(chars)\<close>: the characters of the class are
  removed from both ends.\<close>

definition strip_chars :: "(char \<Rightarrow> bool) \<Rightarrow> string \<Rightarrow> string" where
  "strip_chars P s = rev (dropWhile P (rev (dropWhile P s)))"

abbreviation nl :: char where
  "nl \<equiv> CHR 0x0A"

text \<open>\<^verbatim>\<open>sep.join(xs)\<close>.\<close>

fun join_str :: "string \<Rightarrow> string list \<Rightarrow> string" where
  "join_str sep [] = []"
| "join_str sep [x] = x"
| "join_str sep (x # y # ys) = x @ sep @ join_str sep (y # ys)"

text \<open>
  \<^verbatim>\<open>re.sub\<close> for a pattern that is one character class repeated at least \<open>n\<close> times
  (\<^verbatim>\<open>[^a-zA-Z0-9]+\<close> and \<^verbatim>\<open>_{2,}\<close> in the source): scanning from the left, a
  maximal run of at least \<open>n\<close> characters of the class is replaced by \<open>repl\<close>, any other
  character is copied.
\<close>

function re_sub_class :: "(char \<Rightarrow> bool) \<Rightarrow> nat \<Rightarrow> string \<Rightarrow> string \<Rightarrow> string" where
  "re_sub_class P n repl [] = []"
| "re_sub_class P n repl (c # cs) =
     (if max 1 n \<le> length (takeWhile P (c # cs))
      then repl @ re_sub_class P n repl (dropWhile P (c # cs))
      else c # re_sub_class P n repl cs)"
  by pat_completeness auto
termination
proof (relation "measure (\<lambda>(P, n, repl, s). length s)")
  show "wf (measure (\<lambda>(P, n, repl, s). length s))" by simp
next
  fix P :: "char \<Rightarrow> bool" and n :: nat and repl :: string and c :: char and cs :: string
  assume run: "max 1 n \<le> length (takeWhile P (c # cs))"
  then have "P c" by (cases "P c") auto
  then have "dropWhile P (c # cs) = dropWhile P cs" by simp
  moreover have "length (dropWhile P cs) \<le> length cs" by (rule length_dropWhile_le)
  ultimately show "((P, n, repl, dropWhile P (c # cs)), (P, n, repl, c # cs))
      \<in> measure (\<lambda>(P, n, repl, s). length s)" by simp
next
  fix P :: "char \<Rightarrow> bool" and n :: nat and repl :: string and c :: char and cs :: string
  show "((P, n, repl, cs), (P, n, repl, c # cs)) \<in> measure (\<lambda>(P, n, repl, s). length s)"
    by simp
qed

text \<open>
  \<^verbatim>\<open>s.replace(old, new)\<close> for a non-empty \<open>old\<close>: the occurrences are replaced from
  the left, without overlap. (The scripts never pass an empty \<open>old\<close>; the model then
  copies the string.)
\<close>

function replace_str :: "string \<Rightarrow> string \<Rightarrow> string \<Rightarrow> string" where
  "replace_str old new [] = []"
| "replace_str old new (c # cs) =
     (if old \<noteq> [] \<and> prefix old (c # cs)
      then new @ replace_str old new (drop (length old) (c # cs))
      else c # replace_str old new cs)"
  by pat_completeness auto
termination
  by (relation "measure (\<lambda>(old, new, s). length s)") (auto simp: neq_Nil_conv)

text \<open>\<^verbatim>\<open>s.split(sep)\<close> for a one-character separator: the text up to the first
  separator, then the split of the text after it; a text without a separator is one
  piece.\<close>

function split_on :: "char \<Rightarrow> string \<Rightarrow> string list" where
  "split_on sep s =
     (case dropWhile (\<lambda>c. c \<noteq> sep) s of
        [] \<Rightarrow> [s]
      | c # rest \<Rightarrow> takeWhile (\<lambda>c. c \<noteq> sep) s # split_on sep rest)"
  by pat_completeness auto
termination
proof (relation "measure (\<lambda>(sep, s). length s)")
  show "wf (measure (\<lambda>(sep, s). length s))" by simp
next
  fix sep :: char and s :: string and c :: char and rest :: string
  assume "dropWhile (\<lambda>c. c \<noteq> sep) s = c # rest"
  then have "length (c # rest) \<le> length s"
    using length_dropWhile_le[of "\<lambda>c. c \<noteq> sep" s] by simp
  then show "((sep, rest), (sep, s)) \<in> measure (\<lambda>(sep, s). length s)" by simp
qed

declare split_on.simps [simp del]



section \<open>kg-openai.py: slugs and triples\<close>

text \<open>
  \<^verbatim>\<open>_slug_rx = re.compile(r"[^a-zA-Z0-9]+")\<close>

  \<^verbatim>\<open>def slugify(value):
      value = _slug_rx.sub("_", value.strip().lower())
      return re.sub(r"_{2,}", "_", value).strip("_")\<close>
\<close>

definition slug_rx_sub :: "string \<Rightarrow> string \<Rightarrow> string" where
  "slug_rx_sub repl s = re_sub_class (\<lambda>c. \<not> is_alnum c) 1 repl s"

definition slugify :: "string \<Rightarrow> string" where
  "slugify v =
     (let v1 = slug_rx_sub ''_'' (lower (strip_chars is_space v))
      in strip_chars (\<lambda>c. c = CHR ''_'') (re_sub_class (\<lambda>c. c = CHR ''_'') 2 ''_'' v1))"

text \<open>
  The words of the spec for \<open>slugify\<close> ("lowercase, non-alphanumeric runs collapsed to
  single underscore, no leading/trailing underscore"), written independently of the
  code: the maximal alphanumeric runs of the lower-cased text, joined by one underscore.
\<close>

function alnum_runs :: "string \<Rightarrow> string list" where
  "alnum_runs [] = []"
| "alnum_runs (c # cs) =
     (if is_alnum c
      then takeWhile is_alnum (c # cs) # alnum_runs (dropWhile is_alnum cs)
      else alnum_runs cs)"
  by pat_completeness auto
termination
  by (relation "measure length") (auto simp: length_dropWhile_le less_Suc_eq_le)

definition slug_spec :: "string \<Rightarrow> string" where
  "slug_spec s = join_str ''_'' (alnum_runs (lower s))"

text \<open>
  A \<open>Triple\<close> is a record of three strings. \<open>KnowledgeGraphProgram.forward\<close> turns each
  into RDF nodes:

  \<^verbatim>\<open>s_uri = URIRef(str(self.base) + slugify(t.subject))
  p_uri = URIRef(str(self.base) + slugify(t.predicate))
  # Treat objects containing whitespace as literals; simple heuristic
  o_node = Literal(t.object) if " " in t.object else URIRef(str(self.base) + slugify(t.object))\<close>

  The graph is a set of node triples; the triple extractor (a language-model call) and
  the Turtle serializer are parameters.
\<close>

record triple =
  subject :: string
  predicate :: string
  object :: string

datatype node = URIRef string | Literal string

definition triple_nodes :: "string \<Rightarrow> triple \<Rightarrow> node \<times> node \<times> node" where
  "triple_nodes base t =
     (let s_uri = URIRef (base @ slugify (subject t));
          p_uri = URIRef (base @ slugify (predicate t));
          o_node = (if CHR '' '' \<in> set (object t) then Literal (object t)
                    else URIRef (base @ slugify (object t)))
      in (s_uri, p_uri, o_node))"

fun add_triples :: "string \<Rightarrow> node \<Rightarrow> triple list \<Rightarrow> (node \<times> node \<times> node) set
    \<Rightarrow> (node \<times> node \<times> node) set" where
  "add_triples base theme_uri [] g = g"
| "add_triples base theme_uri (t # ts) g =
     (let (s_uri, p_uri, o_node) = triple_nodes base t;
          g1 = insert (s_uri, p_uri, o_node) g;
          g2 = insert (theme_uri, URIRef (base @ ''relatesTo''), s_uri) g1
      in add_triples base theme_uri ts g2)"

definition kg_forward ::
  "(string \<Rightarrow> string \<Rightarrow> triple list) \<Rightarrow> ((node \<times> node \<times> node) set \<Rightarrow> string) \<Rightarrow> string
     \<Rightarrow> string \<Rightarrow> string \<Rightarrow> string" where
  "kg_forward extractor serialize base theme txt =
     (let triples = extractor theme txt;
          theme_uri = URIRef (base @ slugify theme);
          g = {(theme_uri, URIRef ''http://purl.org/dc/terms/title'', Literal theme)}
      in serialize (add_triples base theme_uri triples g))"

section \<open>kg-anthropic.py: the single-pass extractor\<close>

text \<open>
  \<^verbatim>\<open>def forward(self, theme, text):
      result = self.extractor(theme=theme, text=text)
      g = Graph()
      try:
          g.parse(data=result.rdf_turtle, format="turtle")
      except Exception as e:
          return dspy.Prediction(rdf_turtle=result.rdf_turtle, graph=None, error=str(e))
      return dspy.Prediction(rdf_turtle=result.rdf_turtle, graph=g)\<close>

  The model call and the Turtle parser are parameters; the parser returns the graph
  (\<open>Inr\<close>) or the message of the exception it raises (\<open>Inl\<close>). The prediction of the
  success branch has no \<open>error\<close> attribute, which \<open>extract_knowledge_graph\<close> reads as
  \<open>None\<close>; both are \<open>None\<close> here.
\<close>

record 'g theme_prediction =
  rdf_turtle :: string
  graph :: "'g option"
  error :: "string option"

definition theme_forward ::
  "(string \<Rightarrow> string \<Rightarrow> string) \<Rightarrow> (string \<Rightarrow> string + 'g) \<Rightarrow> string \<Rightarrow> string
     \<Rightarrow> 'g theme_prediction" where
  "theme_forward extractor parse theme txt =
     (let result = extractor theme txt
      in case parse result of
           Inl e \<Rightarrow> \<lparr>rdf_turtle = result, graph = None, error = Some e\<rparr>
         | Inr g \<Rightarrow> \<lparr>rdf_turtle = result, graph = Some g, error = None\<rparr>)"

section \<open>landscape.py: the incremental merge loop\<close>

text \<open>
  A page is a dict with the keys \<open>url\<close>, \<open>text\<close> and (optionally) \<open>metadata\<close>. The
  metadata dict is only tested for truth and formatted into the prompt, so a missing
  key, \<open>None\<close> and \<open>{}\<close> are all the empty list here.
\<close>

type_synonym meta_dict = "(string \<times> string) list"

record page =
  url :: string
  page_text :: string
  metadata :: meta_dict

text \<open>
  The three language-model calls of \<open>IncrementalLandscapeBuilder\<close> are deterministic
  stubs: \<open>extractor\<close> is the \<open>ExtractPageRDF\<close> call (domain, text, url), \<open>schema_inferrer\<close> the
  \<open>InitialSchemaInference\<close> call (domain, sample_pages) and \<open>merger\<close> the
  \<open>IncrementalRDFMerge\<close> call (canonical_rdf, new_page_rdf, source_url, domain).
  \<open>format_metadata\<close> is Python's formatting of the metadata dict inside the f-string.
  Every call is recorded in a trace, in the order it is made. (Nothing in \<open>forward\<close>
  catches an exception: a model call that raises ends the run. The stubs are total
  functions, so that case is outside the model.)
\<close>

record services =
  extractor :: "string \<Rightarrow> string \<Rightarrow> string \<Rightarrow> string"
  schema_inferrer :: "string \<Rightarrow> string \<Rightarrow> string"
  merger :: "string \<Rightarrow> string \<Rightarrow> string \<Rightarrow> string \<Rightarrow> string"
  format_metadata :: "meta_dict \<Rightarrow> string"

datatype lm_call =
    ExtractPageRDF string string string
  | InitialSchemaInference string string
  | IncrementalRDFMerge string string string string

text \<open>
  \<^verbatim>\<open>def _extract_page_rdf(self, domain, text, url, metadata=None):
      metadata_str = ""
      if metadata:
          metadata_str = f"\nPage metadata: {metadata}"
      full_text = text + metadata_str
      ...
      result = extractor(domain=domain, text=full_text, url=url)
      return result.rdf\<close>
\<close>

definition full_text :: "services \<Rightarrow> string \<Rightarrow> meta_dict \<Rightarrow> string" where
  "full_text sv txt md =
     (let metadata_str = (if md \<noteq> [] then [nl] @ ''Page metadata: '' @ format_metadata sv md else [])
      in txt @ metadata_str)"

definition extract_page_rdf ::
  "services \<Rightarrow> string \<Rightarrow> string \<Rightarrow> string \<Rightarrow> meta_dict \<Rightarrow> lm_call list \<Rightarrow> string \<times> lm_call list" where
  "extract_page_rdf sv domain txt u md tr =
     (extractor sv domain (full_text sv txt md) u,
      tr @ [ExtractPageRDF domain (full_text sv txt md) u])"

text \<open>The loop over \<open>pages[:3]\<close> that fills \<open>initial_rdfs\<close>.\<close>

fun initial_rdfs_loop ::
  "services \<Rightarrow> string \<Rightarrow> page list \<Rightarrow> string list \<Rightarrow> lm_call list \<Rightarrow> string list \<times> lm_call list" where
  "initial_rdfs_loop sv domain [] initial_rdfs tr = (initial_rdfs, tr)"
| "initial_rdfs_loop sv domain (p # ps) initial_rdfs tr =
     (let (page_rdf, tr1) = extract_page_rdf sv domain (page_text p) (url p) (metadata p) tr
      in initial_rdfs_loop sv domain ps (initial_rdfs @ [page_rdf]) tr1)"

text \<open>The merge loop: \<open>canonical_rdf\<close> is replaced by the merger's output at every page.\<close>

fun merge_loop ::
  "services \<Rightarrow> string \<Rightarrow> page list \<Rightarrow> string \<Rightarrow> lm_call list \<Rightarrow> string \<times> lm_call list" where
  "merge_loop sv domain [] canonical_rdf tr = (canonical_rdf, tr)"
| "merge_loop sv domain (p # ps) canonical_rdf tr =
     (let (page_rdf, tr1) = extract_page_rdf sv domain (page_text p) (url p) (metadata p) tr;
          merged_rdf = merger sv canonical_rdf page_rdf (url p) domain;
          tr2 = tr1 @ [IncrementalRDFMerge canonical_rdf page_rdf (url p) domain]
      in merge_loop sv domain ps merged_rdf tr2)"

record prediction =
  canonical_graph :: string
  pages_processed :: nat

text \<open>
  \<open>IncrementalLandscapeBuilder.forward\<close>: the optional schema seeding, the merge loop,
  and the returned \<open>Prediction\<close>; with it, the trace of the model calls made.
\<close>

definition schema_seed :: "services \<Rightarrow> string \<Rightarrow> page list \<Rightarrow> string \<times> lm_call list" where
  "schema_seed sv domain pages =
     (if length pages > 3
      then (let (initial_rdfs, tr1) = initial_rdfs_loop sv domain (take 3 pages) [] [];
                sample_pages = join_str ([nl] @ ''---'' @ [nl]) initial_rdfs
            in (schema_inferrer sv domain sample_pages,
                tr1 @ [InitialSchemaInference domain sample_pages]))
      else ([], []))"

definition incremental_forward ::
  "services \<Rightarrow> string \<Rightarrow> page list \<Rightarrow> prediction \<times> lm_call list" where
  "incremental_forward sv domain pages =
     (let (canonical0, tr0) = schema_seed sv domain pages;
          (canonical_rdf, tr) = merge_loop sv domain pages canonical0 tr0
      in (\<lparr>canonical_graph = canonical_rdf, pages_processed = length pages\<rparr>, tr))"

section \<open>landscape.py: crawling\<close>

text \<open>
  What \<open>firecrawl_app.scrape_url\<close> can do for a URL: raise an exception; return a falsy
  value (\<open>None\<close>, an empty dict); return an object with a \<open>markdown\<close> attribute (a
  \<open>ScrapeResponse\<close>: the markdown may be \<open>None\<close>, the metadata attribute may be missing);
  return a non-empty dict; return any other object (with its type and, when it has one,
  its \<open>__dict__\<close>, as printed). A dict is read through
  \<open>result.get\<close>: a key that is missing or \<open>None\<close> is \<open>None\<close> here, and the value under
  \<open>data\<close> is missing, a dict, or something without a \<open>get\<close> method. The client is a
  function of the URL, and the exceptions are the ones \<open>except Exception\<close> catches.
\<close>

datatype py_exception =
    ClientException string string
  | AttributeError
  | TypeError

datatype data_field = NoData | DataDict "string option" meta_dict | DataNotDict

record scrape_dict =
  d_markdown :: "string option"
  d_content :: "string option"
  d_data :: data_field
  d_metadata :: meta_dict

datatype scrape_result =
    Raises py_exception
  | Falsy
  | ScrapeResponse "string option" meta_dict
  | DictResult scrape_dict
  | OtherObject string "string option"

text \<open>The lines \<open>crawl_pages_with_firecrawl\<close> prints, one constructor for each
  \<open>print\<close> statement (and the traceback).\<close>

datatype diag =
    Crawling string
  | SuccessfullyCrawled string
  | WarnNoMarkdown string
  | WarnNoContent string
  | FullResult scrape_dict
  | WarnUnexpectedType string string
  | ResultAttributes string
  | WarnEmptyResult string
  | ErrorCrawling string py_exception
  | Traceback

definition truthy :: "string option \<Rightarrow> bool" where
  "truthy v = (case v of None \<Rightarrow> False | Some s \<Rightarrow> s \<noteq> [])"

text \<open>
  \<^verbatim>\<open>content = result.get('markdown') or result.get('content') or result.get('data', {}).get('markdown')
  metadata = result.get('metadata') or result.get('data', {}).get('metadata', {})\<close>

  \<open>or\<close> evaluates its right operand only when the left one is falsy; \<open>.get\<close> on a
  value that is not a dict raises \<open>AttributeError\<close>.
\<close>

definition dict_content :: "scrape_dict \<Rightarrow> py_exception + string option" where
  "dict_content d =
     (if truthy (d_markdown d) then Inr (d_markdown d)
      else if truthy (d_content d) then Inr (d_content d)
      else (case d_data d of
              NoData \<Rightarrow> Inr None
            | DataDict m md \<Rightarrow> Inr m
            | DataNotDict \<Rightarrow> Inl AttributeError))"

definition dict_metadata :: "scrape_dict \<Rightarrow> py_exception + meta_dict" where
  "dict_metadata d =
     (if d_metadata d \<noteq> [] then Inr (d_metadata d)
      else (case d_data d of
              NoData \<Rightarrow> Inr []
            | DataDict m md \<Rightarrow> Inr md
            | DataNotDict \<Rightarrow> Inl AttributeError))"

text \<open>
  The body of the \<open>try\<close> block for one URL: the page to append (if any), the lines
  printed, and the exception that ended the block (if any).
\<close>

definition try_scrape ::
  "(string \<Rightarrow> scrape_result) \<Rightarrow> string \<Rightarrow> page option \<times> diag list \<times> py_exception option" where
  "try_scrape client u =
     (case client u of
        Raises e \<Rightarrow> (None, [Crawling u], Some e)
      | Falsy \<Rightarrow> (None, [Crawling u, WarnEmptyResult u], None)
      | ScrapeResponse markdown md \<Rightarrow>
          (if truthy markdown
           then (Some \<lparr>url = u, page_text = the markdown, metadata = md\<rparr>,
                 [Crawling u, SuccessfullyCrawled u], None)
           else (None, [Crawling u, WarnNoMarkdown u], None))
      | DictResult d \<Rightarrow>
          (case dict_content d of
             Inl e \<Rightarrow> (None, [Crawling u], Some e)
           | Inr c \<Rightarrow>
               (case dict_metadata d of
                  Inl e \<Rightarrow> (None, [Crawling u], Some e)
                | Inr md \<Rightarrow>
                    (if truthy c
                     then (Some \<lparr>url = u, page_text = the c, metadata = md\<rparr>,
                           [Crawling u, SuccessfullyCrawled u], None)
                     else (None, [Crawling u, WarnNoContent u, FullResult d], None))))
      | OtherObject ty attrs \<Rightarrow>
          (None,
           [Crawling u, WarnUnexpectedType u ty] @
             (case attrs of None \<Rightarrow> [] | Some a \<Rightarrow> [ResultAttributes a]),
           None))"

text \<open>One iteration of the loop: the \<open>try\<close> block and its \<open>except Exception\<close> handler.\<close>

definition crawl_url ::
  "(string \<Rightarrow> scrape_result) \<Rightarrow> string \<Rightarrow> page option \<times> diag list" where
  "crawl_url client u =
     (case try_scrape client u of
        (p, out, None) \<Rightarrow> (p, out)
      | (p, out, Some e) \<Rightarrow> (None, out @ [ErrorCrawling u e, Traceback]))"

fun crawl_loop ::
  "(string \<Rightarrow> scrape_result) \<Rightarrow> string list \<Rightarrow> page list \<Rightarrow> diag list \<Rightarrow> page list \<times> diag list" where
  "crawl_loop client [] pages out = (pages, out)"
| "crawl_loop client (u # us) pages out =
     (case crawl_url client u of
        (None, printed) \<Rightarrow> crawl_loop client us pages (out @ printed)
      | (Some p, printed) \<Rightarrow> crawl_loop client us (pages @ [p]) (out @ printed))"

definition crawl_pages_with_firecrawl ::
  "(string \<Rightarrow> scrape_result) \<Rightarrow> string list \<Rightarrow> page list \<times> diag list" where
  "crawl_pages_with_firecrawl client urls = crawl_loop client urls [] []"

section \<open>landscape_schema.py: the schema/instance pipeline\<close>

text \<open>
  This script has a crawler of its own, which keeps every truthy result that has a
  \<open>markdown\<close> attribute, whatever the markdown is; so the text of a page may be \<open>None\<close>.
  Its \<open>print\<close> statements are not modelled.

  \<^verbatim>\<open>if result and hasattr(result, 'markdown'):
      pages.append({'url': url, 'text': result.markdown,
                    'metadata': result.metadata if hasattr(result, 'metadata') else {}})\<close>
\<close>

record spage =
  s_url :: string
  s_text :: "string option"
  s_metadata :: meta_dict



text \<open>
  The two model calls of \<open>SchemaBasedLandscapeBuilder\<close>, as deterministic stubs (total
  functions): \<open>schema_extractor\<close> (domain, pages_content) and \<open>instance_extractor\<close>
  (schema_rdf, domain, page_content, page_url), and the trace of the calls made.
\<close>

record schema_services =
  schema_extractor :: "string \<Rightarrow> string \<Rightarrow> string"
  instance_extractor :: "string \<Rightarrow> string \<Rightarrow> string option \<Rightarrow> string \<Rightarrow> string"

datatype schema_call =
    ExtractCommonSchema string string
  | ExtractInstanceData string string "string option" string

text \<open>
  \<^verbatim>\<open>pages_content = "\n\n---PAGE---\n\n".join([
      f"URL: {p['url']}\nContent: {p['text'][:1000]}..." for p in pages])\<close>

  Slicing \<open>None\<close> raises \<open>TypeError\<close>, before any model call.
\<close>

fun page_summaries :: "spage list \<Rightarrow> py_exception + string list" where
  "page_summaries [] = Inr []"
| "page_summaries (p # ps) =
     (case s_text p of
        None \<Rightarrow> Inl TypeError
      | Some t \<Rightarrow>
          (case page_summaries ps of
             Inl e \<Rightarrow> Inl e
           | Inr xs \<Rightarrow> Inr ((''URL: '' @ s_url p @ [nl] @ ''Content: '' @ take 1000 t @ ''...'') # xs)))"

definition extract_schema ::
  "schema_services \<Rightarrow> string \<Rightarrow> spage list \<Rightarrow> schema_call list
     \<Rightarrow> (py_exception + string) \<times> schema_call list" where
  "extract_schema sv domain pages tr =
     (case page_summaries pages of
        Inl e \<Rightarrow> (Inl e, tr)
      | Inr xs \<Rightarrow>
          (let pages_content = join_str ([nl, nl] @ ''---PAGE---'' @ [nl, nl]) xs
           in (Inr (schema_extractor sv domain pages_content),
               tr @ [ExtractCommonSchema domain pages_content])))"

definition extract_instances ::
  "schema_services \<Rightarrow> string \<Rightarrow> string \<Rightarrow> spage \<Rightarrow> schema_call list \<Rightarrow> string \<times> schema_call list" where
  "extract_instances sv schema domain p tr =
     (instance_extractor sv schema domain (s_text p) (s_url p),
      tr @ [ExtractInstanceData schema domain (s_text p) (s_url p)])"

text \<open>
  \<open>instances\<close> is a dict keyed by URL. A Python dict keeps its keys in the order of their
  first insertion and overwrites the value of a key that is already there, which is what
  \<^const>\<open>AList.update\<close> does on an association list.
\<close>

fun instances_loop ::
  "schema_services \<Rightarrow> string \<Rightarrow> string \<Rightarrow> spage list \<Rightarrow> (string \<times> string) list \<Rightarrow> schema_call list
     \<Rightarrow> (string \<times> string) list \<times> schema_call list" where
  "instances_loop sv schema domain [] instances tr = (instances, tr)"
| "instances_loop sv schema domain (p # ps) instances tr =
     (let (instance_rdf, tr1) = extract_instances sv schema domain p tr
      in instances_loop sv schema domain ps (AList.update (s_url p) instance_rdf instances) tr1)"

record schema_prediction =
  schema :: string
  instances :: "(string \<times> string) list"

definition schema_forward ::
  "schema_services \<Rightarrow> string \<Rightarrow> spage list \<Rightarrow> (py_exception + schema_prediction) \<times> schema_call list" where
  "schema_forward sv domain pages =
     (case extract_schema sv domain pages [] of
        (Inl e, tr) \<Rightarrow> (Inl e, tr)
      | (Inr sch, tr) \<Rightarrow>
          (let (insts, tr1) = instances_loop sv sch domain pages [] tr
           in (Inr \<lparr>schema = sch, instances = insts\<rparr>, tr1)))"

text \<open>
  \<open>build_landscape_schema_and_instances\<close>. The file system is what the function does to
  it: the directories it makes and the files it writes (path and whole content), in
  order; every file-system call succeeds.
\<close>



text \<open>\<^verbatim>\<open>filename = url.replace("https://", "").replace("/", "_").replace(".", "_") + ".ttl"\<close>\<close>

definition instance_file_name :: "string \<Rightarrow> string" where
  "instance_file_name u =
     replace_str ''.'' ''_'' (replace_str ''/'' ''_'' (replace_str ''https://'' [] u)) @ ''.ttl''"


text \<open>The merged file, as the list of the lines written (each \<open>f.write\<close> ends its
  text with a newline).\<close>

definition merged_header :: "string \<Rightarrow> string list" where
  "merged_header schema_filename =
     [''@prefix : <http://example.org/ai-writing-tools#> .'',
      ''@prefix rdfs: <http://www.w3.org/2000/01/rdf-schema#> .'',
      ''@prefix rdf: <http://www.w3.org/1999/02/22-rdf-syntax-ns#> .'',
      ''@prefix xsd: <http://www.w3.org/2001/XMLSchema#> .'',
      ''@prefix prov: <http://www.w3.org/ns/prov#> .'',
      ''@prefix owl: <http://www.w3.org/2002/07/owl#> .'',
      [],
      ''# This file imports the schema'',
      ''<> owl:imports <./'' @ schema_filename @ ''> .'',
      [],
      ''### All Instance Data ###'']"

definition merged_section :: "string \<times> string \<Rightarrow> string list" where
  "merged_section ui =
     [[], ''### From '' @ fst ui @ '' ###''] @
     filter (\<lambda>line. \<not> prefix ''@prefix'' line) (split_on nl (snd ui))"

definition merged_content :: "string \<Rightarrow> (string \<times> string) list \<Rightarrow> string" where
  "merged_content schema_filename insts =
     concat (map (\<lambda>line. line @ [nl])
       (merged_header schema_filename @ concat (map merged_section insts)))"




section \<open>Stand-ins for the external services\<close>

text \<open>
  Concrete stubs for the model calls, the parser and the crawler, used where a statement
  is evaluated at a concrete input.
\<close>

definition silent_model :: "string \<Rightarrow> string \<Rightarrow> string" where
  "silent_model theme txt = []"

text \<open>A Turtle document of white space only is well-formed and has no triples; this
  stand-in accepts these documents and nothing else.\<close>

definition blank_turtle_parser :: "string \<Rightarrow> string + (string \<times> string \<times> string) list" where
  "blank_turtle_parser s = (if list_all is_space s then Inr [] else Inl ''Bad syntax'')"



text \<open>Stub model calls for the schema/instance pipeline: a fixed schema, and the page
  content echoed as the instance data.\<close>

definition echo_services :: schema_services where
  "echo_services =
     \<lparr>schema_extractor = (\<lambda>domain pages_content. '':AIWritingTool a owl:Class .''),
      instance_extractor = (\<lambda>sch domain page_content page_url.
         case page_content of None \<Rightarrow> [] | Some t \<Rightarrow> t)\<rparr>"

text \<open>Pages for the examples; \<open>page_a\<close> and \<open>page_a'\<close> share a URL.\<close>

definition page_a :: spage where
  "page_a = \<lparr>s_url = ''https://jasper.ai'', s_text = Some ''Jasper is an AI writing assistant.'', s_metadata = []\<rparr>"

definition page_a' :: spage where
  "page_a' = \<lparr>s_url = ''https://jasper.ai'', s_text = Some ''Pricing begins at $39/month.'', s_metadata = []\<rparr>"

definition page_b :: spage where
  "page_b = \<lparr>s_url = ''https://copy.ai'', s_text = Some ''Copy.ai provides AI writing tools.'', s_metadata = []\<rparr>"

definition page_c :: spage where
  "page_c = \<lparr>s_url = ''https://grammarly.com'', s_text = Some ''Grammarly offers writing assistance.'', s_metadata = []\<rparr>"




section \<open>Notions used in the statements and proofs\<close>

subsection \<open>Shapes of strings\<close>

text \<open>A string is \<open>headed\<close> when it does not start with a separator; \<open>trail\<close> is the
  underscore a final separator run leaves; \<open>no_double\<close> says that no two underscores are
  adjacent.\<close>

definition headed :: "string \<Rightarrow> bool" where
  "headed t = (t = [] \<or> is_alnum (hd t))"

definition trail :: "string \<Rightarrow> string" where
  "trail t = (if t \<noteq> [] \<and> \<not> is_alnum (last t) then ''_'' else [])"

fun no_double :: "string \<Rightarrow> bool" where
  "no_double (c # d # cs) = (\<not> (c = CHR ''_'' \<and> d = CHR ''_'') \<and> no_double (d # cs))"
| "no_double cs = True"

subsection \<open>Reading the trace of the incremental merge loop\<close>

text \<open>The fragment the extraction call returns for a page and the record of that call;
  one step of the merge (the page's fragment merged into the accumulator); the three
  kinds of call; and the text handed to the schema inference.\<close>

definition fragment_of :: "services \<Rightarrow> string \<Rightarrow> page \<Rightarrow> string" where
  "fragment_of sv domain p = fst (extract_page_rdf sv domain (page_text p) (url p) (metadata p) [])"

definition extract_call :: "services \<Rightarrow> string \<Rightarrow> page \<Rightarrow> lm_call" where
  "extract_call sv domain p = ExtractPageRDF domain (full_text sv (page_text p) (metadata p)) (url p)"

definition merge_step :: "services \<Rightarrow> string \<Rightarrow> string \<Rightarrow> page \<Rightarrow> string" where
  "merge_step sv domain canonical_rdf p = merger sv canonical_rdf (fragment_of sv domain p) (url p) domain"

fun is_extract :: "lm_call \<Rightarrow> bool" where
  "is_extract (ExtractPageRDF d t u) = True"
| "is_extract c = False"

fun is_schema_inference :: "lm_call \<Rightarrow> bool" where
  "is_schema_inference (InitialSchemaInference d s) = True"
| "is_schema_inference c = False"

fun is_merge :: "lm_call \<Rightarrow> bool" where
  "is_merge (IncrementalRDFMerge c n u d) = True"
| "is_merge c = False"

definition sample_pages_of :: "services \<Rightarrow> string \<Rightarrow> page list \<Rightarrow> string" where
  "sample_pages_of sv domain pages =
     join_str ([nl] @ ''---'' @ [nl]) (map (fragment_of sv domain) (take 3 pages))"

subsection \<open>Outcomes of a fetch\<close>

text \<open>A fetch is successful when the client returns a result whose content is there
  (and reading the result raises nothing); the warnings and errors among the printed
  lines are the diagnostics.\<close>

fun successful :: "scrape_result \<Rightarrow> bool" where
  "successful (ScrapeResponse markdown md) = truthy markdown"
| "successful (DictResult d) =
     (case dict_content d of
        Inl e \<Rightarrow> False
      | Inr c \<Rightarrow> (case dict_metadata d of Inl e \<Rightarrow> False | Inr md \<Rightarrow> truthy c))"
| "successful r = False"

fun is_warning :: "diag \<Rightarrow> bool" where
  "is_warning (WarnNoMarkdown u) = True"
| "is_warning (WarnNoContent u) = True"
| "is_warning (WarnUnexpectedType u ty) = True"
| "is_warning (WarnEmptyResult u) = True"
| "is_warning (ErrorCrawling u e) = True"
| "is_warning d = False"

subsection \<open>The schema/instance pipeline\<close>

text \<open>The instance text the model returns for a page under a schema, and the text handed
  to the schema extraction.\<close>

definition instance_of :: "schema_services \<Rightarrow> string \<Rightarrow> string \<Rightarrow> spage \<Rightarrow> string" where
  "instance_of sv sch domain p = instance_extractor sv sch domain (s_text p) (s_url p)"

definition pages_content_of :: "string list \<Rightarrow> string" where
  "pages_content_of xs = join_str ([nl, nl] @ ''---PAGE---'' @ [nl, nl]) xs"




fun mentions :: "string \<Rightarrow> string \<Rightarrow> bool" where
  "mentions pat [] = (pat = [])"
| "mentions pat (c # cs) = (prefix pat (c # cs) \<or> mentions pat cs)"

section \<open>Properties of \<open>slugify\<close>\<close>

lemma sub_Nil [simp]: "slug_rx_sub r [] = []"
  by (simp add: slug_rx_sub_def)

lemma sub_alnum_Cons: "is_alnum c \<Longrightarrow> slug_rx_sub r (c # cs) = c # slug_rx_sub r cs"
  by (simp add: slug_rx_sub_def)

lemma sub_nonalnum_Cons:
  "\<not> is_alnum c \<Longrightarrow> slug_rx_sub r (c # cs) = r @ slug_rx_sub r (dropWhile (\<lambda>c. \<not> is_alnum c) cs)"
  by (simp add: slug_rx_sub_def)

lemma sub_word: "\<forall>c\<in>set w. is_alnum c \<Longrightarrow> slug_rx_sub r (w @ t) = w @ slug_rx_sub r t"
  by (induction w) (auto simp: sub_alnum_Cons slug_rx_sub_def)

lemma runs_skip: "alnum_runs (dropWhile (\<lambda>c. \<not> is_alnum c) t) = alnum_runs t"
  by (induction t) auto

lemma headed_dropWhile: "headed (dropWhile (\<lambda>c. \<not> is_alnum c) t)"
  unfolding headed_def by (metis (mono_tags, lifting) hd_dropWhile)

lemma sub_headed: "headed t \<Longrightarrow> slug_rx_sub ''_'' t = join_str ''_'' (alnum_runs t) @ trail t"
proof (induction t rule: length_induct)
  case (1 t)
  show ?case
  proof (cases t)
    case Nil
    then show ?thesis by (simp add: slug_rx_sub_def trail_def)
  next
    case (Cons c cs)
    with 1 have c: "is_alnum c" by (simp add: headed_def)
    define w where "w = takeWhile is_alnum t"
    define r where "r = dropWhile is_alnum t"
    have t: "t = w @ r" by (simp add: w_def r_def)
    have w: "\<forall>c\<in>set w. is_alnum c" "w \<noteq> []" using c Cons by (auto simp: w_def dest: set_takeWhileD)
    have runs: "alnum_runs t = w # alnum_runs r" using Cons c by (simp add: w_def r_def)
    have f: "slug_rx_sub ''_'' t = w @ slug_rx_sub ''_'' r" using sub_word[OF w(1)] t by simp
    show ?thesis
    proof (cases r)
      case Nil
      then show ?thesis using f runs t w by (simp add: trail_def)
    next
      case rc: (Cons d ds)
      have d: "\<not> is_alnum d" using rc r_def by (metis hd_dropWhile list.sel(1) list.simps(3))
      define r' where "r' = dropWhile (\<lambda>c. \<not> is_alnum c) ds"
      have fr: "slug_rx_sub ''_'' r = ''_'' @ slug_rx_sub ''_'' r'" using d rc by (simp add: sub_nonalnum_Cons r'_def)
      have rr: "alnum_runs r = alnum_runs r'" using rc d runs_skip[of ds] by (simp add: r'_def)
      have len: "length r' < length t" using t rc w length_dropWhile_le[of "\<lambda>c. \<not> is_alnum c" ds] by (simp add: r'_def)
      have h: "headed r'" unfolding r'_def by (rule headed_dropWhile)
      from 1 len h have IH: "slug_rx_sub ''_'' r' = join_str ''_'' (alnum_runs r') @ trail r'" by blast
      show ?thesis
      proof (cases r')
        case Nil
        have "\<forall>c\<in>set ds. \<not> is_alnum c" using Nil r'_def by (metis (mono_tags, lifting) dropWhile_eq_Nil_conv)
        then have "\<not> is_alnum (last t)" using t rc d by (auto simp: last_append)
        then show ?thesis using f fr rr runs Nil t rc by (simp add: trail_def slug_rx_sub_def)
      next
        case c': (Cons e es)
        then have "is_alnum e" using h by (simp add: headed_def)
        then obtain u us where us: "alnum_runs r' = u # us" using c' by simp
        have "ds = takeWhile (\<lambda>c. \<not> is_alnum c) ds @ r'" by (simp add: r'_def)
        then have "last ds = last r'" using c' by (metis last_appendR list.simps(3))
        moreover have "ds \<noteq> []" using c' r'_def by auto
        ultimately have "last t = last r'" using t rc by simp
        moreover have "t \<noteq> []" "r' \<noteq> []" using c' Cons by simp_all
        ultimately have "trail t = trail r'" unfolding trail_def by simp
        then show ?thesis using f fr rr runs IH us by simp
      qed
    qed
  qed
qed


lemma underscore_not_alnum [simp]: "\<not> is_alnum CHR ''_''"
  by (simp add: is_alnum_def)

lemma sub_lead:
  "slug_rx_sub ''_'' t =
     (if headed t then [] else ''_'') @ slug_rx_sub ''_'' (dropWhile (\<lambda>c. \<not> is_alnum c) t)"
  by (cases t) (auto simp: headed_def sub_nonalnum_Cons)

lemma resub2_id: "no_double x \<Longrightarrow> re_sub_class (\<lambda>c. c = CHR ''_'') 2 ''_'' x = x"
  by (induction x rule: no_double.induct) auto

lemma sub_hd: "headed t \<Longrightarrow> headed (slug_rx_sub ''_'' t)"
  by (cases t) (auto simp: headed_def sub_alnum_Cons)

lemma no_double_Cons: "headed y \<Longrightarrow> no_double (c # y) = no_double y"
  by (cases y) (auto simp: headed_def)

lemma no_double_Cons': "c \<noteq> CHR ''_'' \<Longrightarrow> no_double (c # y) = no_double y"
  by (cases y) auto

lemma no_double_sub: "no_double (slug_rx_sub ''_'' t)"
proof (induction t rule: length_induct)
  case (1 t)
  show ?case
  proof (cases t)
    case Nil
    then show ?thesis by simp
  next
    case (Cons c cs)
    show ?thesis
    proof (cases "is_alnum c")
      case True
      then have "c \<noteq> CHR ''_''" by auto
      then show ?thesis using 1 Cons True by (simp add: sub_alnum_Cons no_double_Cons')
    next
      case False
      define r where "r = dropWhile (\<lambda>c. \<not> is_alnum c) cs"
      have "length r < length t" using Cons length_dropWhile_le[of "\<lambda>c. \<not> is_alnum c" cs] by (simp add: r_def)
      with 1 have "no_double (slug_rx_sub ''_'' r)" by blast
      moreover have "headed (slug_rx_sub ''_'' r)" unfolding r_def by (intro sub_hd headed_dropWhile)
      ultimately show ?thesis using Cons False by (simp add: sub_nonalnum_Cons r_def[symmetric] no_double_Cons)
    qed
  qed
qed

lemma strip_chars_around:
  assumes "x = [] \<or> (\<not> P (hd x) \<and> \<not> P (last x))" "\<forall>c\<in>set a. P c" "\<forall>c\<in>set b. P c"
  shows "strip_chars P (a @ x @ b) = x"
proof (cases x)
  case Nil
  have "\<forall>c\<in>set (a @ b). P c" using assms by auto
  then have "dropWhile P (a @ b) = []" by (subst dropWhile_eq_Nil_conv)
  then show ?thesis
    by (simp only: Nil strip_chars_def append_Nil dropWhile.simps rev.simps)
next
  case (Cons c cs)
  with assms have h: "\<not> P (hd x)" "\<not> P (last x)" by auto
  have "dropWhile P (a @ x @ b) = dropWhile P (x @ b)"
    using assms(2) by (intro dropWhile_append2) simp
  also have "\<dots> = x @ b" using h(1) Cons by simp
  finally have 1: "dropWhile P (a @ x @ b) = x @ b" .
  obtain y ys where r: "rev x = y # ys" using Cons by (cases "rev x") auto
  then have "y = last x" by (metis last_rev list.sel(1) rev_rev_ident hd_rev)
  then have "\<not> P y" using h(2) by simp
  then have "dropWhile P (rev x) = rev x" unfolding r by simp
  moreover have "dropWhile P (rev b @ rev x) = dropWhile P (rev x)"
    using assms(3) by (intro dropWhile_append2) simp
  ultimately have 2: "dropWhile P (rev (x @ b)) = rev x" by simp
  show ?thesis unfolding strip_chars_def 1 2 by simp
qed



lemma runs_words: "w \<in> set (alnum_runs t) \<Longrightarrow> w \<noteq> [] \<and> (\<forall>c\<in>set w. is_alnum c)"
proof (induction t rule: alnum_runs.induct)
  case 1
  then show ?case by simp
next
  case (2 c cs)
  show ?case
  proof (cases "is_alnum c")
    case True
    with 2 have "w = c # takeWhile is_alnum cs \<or> w \<in> set (alnum_runs (dropWhile is_alnum cs))"
      by simp
    then show ?thesis
    proof
      assume "w = c # takeWhile is_alnum cs"
      then show ?thesis using True by (auto dest: set_takeWhileD)
    next
      assume "w \<in> set (alnum_runs (dropWhile is_alnum cs))"
      then show ?thesis using 2 True by simp
    qed
  next
    case False
    with 2 show ?thesis by simp
  qed
qed

lemma join_ends:
  "ws \<noteq> [] \<Longrightarrow> \<forall>w\<in>set ws. w \<noteq> [] \<and> (\<forall>c\<in>set w. is_alnum c) \<Longrightarrow>
   is_alnum (hd (join_str ''_'' ws)) \<and> is_alnum (last (join_str ''_'' ws))"
proof (induction "''_''" ws rule: join_str.induct)
  case 1
  then show ?case by simp
next
  case (2 x)
  then show ?case by simp
next
  case (3 x y ys)
  then have "join_str ''_'' (y # ys) \<noteq> []" by (cases ys) auto
  with 3 show ?case by (auto simp: hd_append)
qed

lemma join_runs_ends:
  "join_str ''_'' (alnum_runs t) = [] \<or>
   (\<not> (hd (join_str ''_'' (alnum_runs t)) = CHR ''_'') \<and> \<not> (last (join_str ''_'' (alnum_runs t)) = CHR ''_''))"
proof (cases "alnum_runs t = []")
  case True
  then show ?thesis by simp
next
  case False
  from join_ends[OF False] runs_words[of _ t]
  have "is_alnum (hd (join_str ''_'' (alnum_runs t))) \<and> is_alnum (last (join_str ''_'' (alnum_runs t)))"
    by blast
  then show ?thesis by (metis underscore_not_alnum)
qed

lemma trail_set: "\<forall>c\<in>set (trail t). c = CHR ''_''"
  by (simp add: trail_def)

lemma strip_sub: "strip_chars (\<lambda>c. c = CHR ''_'') (slug_rx_sub ''_'' t) = join_str ''_'' (alnum_runs t)"
proof -
  define t' where "t' = dropWhile (\<lambda>c. \<not> is_alnum c) t"
  have h: "headed t'" unfolding t'_def by (rule headed_dropWhile)
  have "slug_rx_sub ''_'' t = (if headed t then [] else ''_'') @ join_str ''_'' (alnum_runs t) @ trail t'"
    using sub_lead[of t] sub_headed[OF h] runs_skip[of t] by (simp add: t'_def)
  moreover have "strip_chars (\<lambda>c. c = CHR ''_'')
      ((if headed t then [] else ''_'') @ join_str ''_'' (alnum_runs t) @ trail t') = join_str ''_'' (alnum_runs t)"
    by (rule strip_chars_around) (use join_runs_ends[of t] trail_set in auto)
  ultimately show ?thesis by simp
qed

lemma runs_all_non: "\<forall>c\<in>set z. \<not> is_alnum c \<Longrightarrow> alnum_runs z = []"
  by (induction z) auto

lemma runs_prefix_non: "\<forall>c\<in>set x. \<not> is_alnum c \<Longrightarrow> alnum_runs (x @ y) = alnum_runs y"
  by (induction x) auto

lemma takeWhile_app_non: "\<forall>c\<in>set z. \<not> is_alnum c \<Longrightarrow> takeWhile is_alnum (cs @ z) = takeWhile is_alnum cs"
  by (induction cs) (auto simp: takeWhile_eq_Nil_iff)

lemma dropWhile_app_non: "\<forall>c\<in>set z. \<not> is_alnum c \<Longrightarrow> dropWhile is_alnum (cs @ z) = dropWhile is_alnum cs @ z"
  by (induction cs) (auto simp: dropWhile_eq_self_iff intro: hd_in_set)

lemma runs_suffix_non: "\<forall>c\<in>set z. \<not> is_alnum c \<Longrightarrow> alnum_runs (y @ z) = alnum_runs y"
  by (induction y rule: alnum_runs.induct)
     (auto simp: runs_all_non takeWhile_app_non dropWhile_app_non)

lemma strip_decomp:
  "\<exists>a b. s = a @ strip_chars P s @ b \<and> (\<forall>c\<in>set a. P c) \<and> (\<forall>c\<in>set b. P c)"
proof -
  define d where "d = dropWhile P s"
  have 1: "s = takeWhile P s @ d" by (simp add: d_def)
  have "d = rev (takeWhile P (rev d) @ dropWhile P (rev d))"
    by (simp only: takeWhile_dropWhile_id rev_rev_ident)
  also have "\<dots> = rev (dropWhile P (rev d)) @ rev (takeWhile P (rev d))"
    by (simp only: rev_append)
  finally have 2: "d = strip_chars P s @ rev (takeWhile P (rev d))"
    unfolding strip_chars_def d_def .
  have "s = takeWhile P s @ strip_chars P s @ rev (takeWhile P (rev d))" using 1 2 by simp
  moreover have "\<forall>c\<in>set (takeWhile P s). P c" by (auto dest: set_takeWhileD)
  moreover have "\<forall>c\<in>set (rev (takeWhile P (rev d))). P c" by (auto dest: set_takeWhileD)
  ultimately show ?thesis by blast
qed

lemma space_lower_non: "is_space c \<Longrightarrow> \<not> is_alnum (lower_char c)"
  by (auto simp: is_space_def is_alnum_def lower_char_def Let_def)

lemma runs_lower_strip: "alnum_runs (lower (strip_chars is_space s)) = alnum_runs (lower s)"
proof -
  obtain a b where ab: "s = a @ strip_chars is_space s @ b"
    "\<forall>c\<in>set a. is_space c" "\<forall>c\<in>set b. is_space c" using strip_decomp by blast
  have "lower s = lower a @ lower (strip_chars is_space s) @ lower b"
    by (subst ab(1)) (simp add: lower_def)
  moreover have "\<forall>c\<in>set (lower a). \<not> is_alnum c" "\<forall>c\<in>set (lower b). \<not> is_alnum c"
    using ab(2,3) by (auto simp: lower_def space_lower_non)
  ultimately show ?thesis
    by (metis runs_prefix_non runs_suffix_non)
qed

lemma slugify_slug_spec: "slugify s = slug_spec s"
  unfolding slugify_def slug_spec_def Let_def
  by (simp add: resub2_id no_double_sub strip_sub runs_lower_strip)


lemma slug_spec_no_underscore_ends:
  "\<not> prefix ''_'' (slug_spec s) \<and> \<not> suffix ''_'' (slug_spec s)"
proof -
  let ?j = "join_str ''_'' (alnum_runs (lower s))"
  from join_runs_ends[of "lower s"] show ?thesis
  proof
    assume "?j = []"
    then show ?thesis by (simp add: slug_spec_def)
  next
    assume e: "\<not> hd ?j = CHR ''_'' \<and> \<not> last ?j = CHR ''_''"
    have "\<not> prefix ''_'' ?j" using e by (cases ?j) auto
    moreover have "\<not> suffix ''_'' ?j" using e by (auto simp: suffix_def)
    ultimately show ?thesis by (simp add: slug_spec_def)
  qed
qed

text \<open>
  Claim C7. \<open>slugify "AI Writing Tools!"\<close> is \<open>"ai_writing_tools"\<close>; and for every
  string, \<open>slugify\<close> returns the maximal alphanumeric runs of the lower-cased string
  joined by single underscores (every maximal run of other characters between two of
  them has become one underscore), with no underscore at either end.
\<close>

theorem slugify_collapses_runs:
  "slugify ''AI Writing Tools!'' = ''ai_writing_tools'' \<and>
   slugify s = slug_spec s \<and>
   \<not> prefix ''_'' (slugify s) \<and> \<not> suffix ''_'' (slugify s)"
proof -
  have "slug_spec ''AI Writing Tools!'' = ''ai_writing_tools''"
    by code_simp
  then show ?thesis
    using slug_spec_no_underscore_ends[of s] by (simp add: slugify_slug_spec)
qed

section \<open>Properties of the triple conversion\<close>

text \<open>What the code does with a triple: subject and predicate become slug URIs; the
  object becomes a literal exactly when it contains the space character.\<close>

lemma triple_nodes_space_heuristic:
  "triple_nodes base t =
     (URIRef (base @ slugify (subject t)), URIRef (base @ slugify (predicate t)),
      if CHR '' '' \<in> set (object t) then Literal (object t)
      else URIRef (base @ slugify (object t)))"
  by (simp add: triple_nodes_def)

text \<open>
  Claim C6. The code tests \<^verbatim>\<open>" " in t.object\<close>, the space character only, while its
  comment (and the claim) speak of white space. An object with a tab and no space
  becomes a slug URI, not a literal.
\<close>

theorem triple_nodes_tab_object_is_uri:
  "triple_nodes ''http://example.org/''
     \<lparr>subject = ''Paris'', predicate = ''twinned with'', object = ''New'' @ [CHR 0x09] @ ''York''\<rparr>
   = (URIRef ''http://example.org/paris'', URIRef ''http://example.org/twinned_with'',
      URIRef ''http://example.org/new_york'')"
proof -
  have "slug_spec ''Paris'' = ''paris''"
    by code_simp
  moreover have "slug_spec ''twinned with'' = ''twinned_with''"
    by code_simp
  moreover have "slug_spec (''New'' @ [CHR 0x09] @ ''York'') = ''new_york''"
    by code_simp
  ultimately show ?thesis
    by (simp add: triple_nodes_def slugify_slug_spec)
qed

section \<open>Properties of the single-pass extractor\<close>

text \<open>
  Claim C3, as stated, fails: nothing in \<open>forward\<close> looks at the length of the fragment.
  When the model returns the empty string, the parser accepts it (an empty Turtle
  document) and the result has an empty fragment, a graph and no error.
\<close>

theorem theme_forward_empty_fragment:
  "rdf_turtle (theme_forward silent_model blank_turtle_parser ''Climate Change'' []) = [] \<and>
   graph (theme_forward silent_model blank_turtle_parser ''Climate Change'' []) = Some [] \<and>
   error (theme_forward silent_model blank_turtle_parser ''Climate Change'' []) = None"
  by (simp add: theme_forward_def silent_model_def blank_turtle_parser_def)

text \<open>
  Claim C3, amended. For every theme and text, \<open>forward\<close> returns the model's fragment
  text unchanged, together with either the parsed graph and no error (when the parser
  accepts the fragment), or no graph and the parser's error message (when it does not);
  the graph and the error are never both null, and a parse failure is a returned value.
\<close>

theorem theme_forward_graph_or_error:
  "rdf_turtle (theme_forward model parse theme txt) = model theme txt \<and>
   ((\<exists>g. parse (model theme txt) = Inr g \<and>
         graph (theme_forward model parse theme txt) = Some g \<and>
         error (theme_forward model parse theme txt) = None) \<or>
    (\<exists>e. parse (model theme txt) = Inl e \<and>
         graph (theme_forward model parse theme txt) = None \<and>
         error (theme_forward model parse theme txt) = Some e))"
  by (cases "parse (model theme txt)") (simp_all add: theme_forward_def)

section \<open>Properties of the incremental merge loop\<close>

lemma extract_call_kind:
  "is_extract (extract_call sv domain p)"
  "\<not> is_merge (extract_call sv domain p)"
  "\<not> is_schema_inference (extract_call sv domain p)"
  by (simp_all add: extract_call_def)

lemma filter_extract_calls:
  "filter is_extract (map (extract_call sv domain) ps) = map (extract_call sv domain) ps"
  "filter is_merge (map (extract_call sv domain) ps) = []"
  "filter is_schema_inference (map (extract_call sv domain) ps) = []"
  by (induction ps) (simp_all add: extract_call_kind)

lemma extract_page_rdf_eq:
  "extract_page_rdf sv domain (page_text p) (url p) (metadata p) tr =
     (fragment_of sv domain p, tr @ [extract_call sv domain p])"
  by (simp add: extract_page_rdf_def fragment_of_def extract_call_def)

lemma initial_rdfs_loop_eq:
  "initial_rdfs_loop sv domain ps acc tr =
     (acc @ map (fragment_of sv domain) ps, tr @ map (extract_call sv domain) ps)"
  by (induction ps arbitrary: acc tr) (simp_all add: extract_page_rdf_eq)

lemma merge_loop_fold:
  "fst (merge_loop sv domain ps c tr) = foldl (merge_step sv domain) c ps"
  by (induction ps arbitrary: c tr) (simp_all add: extract_page_rdf_eq merge_step_def)

lemma merge_loop_trace_append:
  "snd (merge_loop sv domain ps c tr) = tr @ snd (merge_loop sv domain ps c [])"
proof (induction ps arbitrary: c tr)
  case Nil
  then show ?case by simp
next
  case (Cons p ps)
  show ?case
    by (simp add: extract_page_rdf_eq Cons.IH[of _ "tr @ _"] Cons.IH[of _ "[_, _]"])
qed

lemma merge_loop_extracts:
  "filter is_extract (snd (merge_loop sv domain ps c tr)) =
     filter is_extract tr @ map (extract_call sv domain) ps"
  by (induction ps arbitrary: c tr) (simp_all add: extract_page_rdf_eq extract_call_def)

lemma merge_loop_no_schema:
  "filter is_schema_inference (snd (merge_loop sv domain ps c tr)) = filter is_schema_inference tr"
  by (induction ps arbitrary: c tr) (simp_all add: extract_page_rdf_eq extract_call_def)

lemma merge_loop_merges:
  "filter is_merge (snd (merge_loop sv domain ps c tr)) =
     filter is_merge tr @
     map (\<lambda>i. IncrementalRDFMerge (foldl (merge_step sv domain) c (take i ps))
                 (fragment_of sv domain (ps ! i)) (url (ps ! i)) domain) [0..<length ps]"
proof (induction ps arbitrary: c tr)
  case Nil
  then show ?case by simp
next
  case (Cons p ps)
  show ?case
    by (simp add: extract_page_rdf_eq extract_call_def Cons.IH map_upt_Suc merge_step_def
             del: upt_Suc)
qed

lemma schema_seed_eq:
  "schema_seed sv domain pages =
     (if 3 < length pages
      then (schema_inferrer sv domain (sample_pages_of sv domain pages),
            map (extract_call sv domain) (take 3 pages) @
            [InitialSchemaInference domain (sample_pages_of sv domain pages)])
      else ([], []))"
  by (simp add: schema_seed_def initial_rdfs_loop_eq sample_pages_of_def Let_def)

lemma forward_eq:
  "incremental_forward sv domain pages =
     (\<lparr>canonical_graph = foldl (merge_step sv domain) (fst (schema_seed sv domain pages)) pages,
       pages_processed = length pages\<rparr>,
      snd (schema_seed sv domain pages) @
      snd (merge_loop sv domain pages (fst (schema_seed sv domain pages)) []))"
proof -
  obtain c0 tr0 where s: "schema_seed sv domain pages = (c0, tr0)" by (cases "schema_seed sv domain pages")
  obtain c tr where m: "merge_loop sv domain pages c0 tr0 = (c, tr)" by (cases "merge_loop sv domain pages c0 tr0")
  have "c = foldl (merge_step sv domain) c0 pages" using merge_loop_fold[of sv domain pages c0 tr0] m by simp
  moreover have "tr = tr0 @ snd (merge_loop sv domain pages c0 [])"
    using merge_loop_trace_append[of sv domain pages c0 tr0] m by simp
  ultimately show ?thesis by (simp add: incremental_forward_def s m)
qed

text \<open>
  Claim C1. With the extraction and merge calls fixed as functions, \<open>forward\<close> returns
  the left fold of the merge step over the pages, in the order of the list, started from
  the seed, together with the number of pages. The merge calls it makes are, in order,
  one per page: the call for page \<open>i\<close> receives the canonical text after the first \<open>i\<close>
  pages and the fragment and URL of page \<open>i\<close>; and the canonical text after one more page
  is the merge call's output for the text before it and that page's fragment.
\<close>

theorem forward_is_left_fold:
  "fst (incremental_forward sv domain pages) =
     \<lparr>canonical_graph = foldl (merge_step sv domain) (fst (schema_seed sv domain pages)) pages,
      pages_processed = length pages\<rparr> \<and>
   filter is_merge (snd (incremental_forward sv domain pages)) =
     map (\<lambda>i. IncrementalRDFMerge
                 (foldl (merge_step sv domain) (fst (schema_seed sv domain pages)) (take i pages))
                 (fragment_of sv domain (pages ! i)) (url (pages ! i)) domain)
         [0..<length pages] \<and>
   foldl (merge_step sv domain) c (ps @ [p]) =
     merger sv (foldl (merge_step sv domain) c ps) (fragment_of sv domain p) (url p) domain"
  by (simp add: forward_eq merge_loop_merges schema_seed_eq merge_step_def filter_extract_calls)

text \<open>
  Claim C2. The calls of \<open>forward\<close> are: when there are more than 3 pages, the
  extraction of the first 3 pages, one schema-inference call on their fragments joined
  by the separator, and then the merge loop started from the schema text that call
  returned; otherwise the merge loop started from the empty string. The merge loop
  makes no schema-inference call, so there is one exactly when there are more than 3
  pages.
\<close>

theorem schema_inference_iff_more_than_three:
  "snd (incremental_forward sv domain pages) =
     (if 3 < length pages
      then map (extract_call sv domain) (take 3 pages) @
           [InitialSchemaInference domain (sample_pages_of sv domain pages)] @
           snd (merge_loop sv domain pages (schema_inferrer sv domain (sample_pages_of sv domain pages)) [])
      else snd (merge_loop sv domain pages [] [])) \<and>
   filter is_schema_inference (snd (merge_loop sv domain pages c [])) = [] \<and>
   filter is_schema_inference (snd (incremental_forward sv domain pages)) =
     (if 3 < length pages
      then [InitialSchemaInference domain (sample_pages_of sv domain pages)] else [])"
  by (simp add: forward_eq merge_loop_no_schema schema_seed_eq filter_extract_calls)

text \<open>
  Claim C9. The extraction calls of \<open>forward\<close> are those for the first 3 pages (only
  when there are more than 3 pages) followed by one for every page: \<open>len(pages) + 3\<close>
  calls for more than 3 pages, \<open>len(pages)\<close> otherwise.
\<close>

theorem extraction_call_count:
  "filter is_extract (snd (incremental_forward sv domain pages)) =
     (if 3 < length pages then map (extract_call sv domain) (take 3 pages) else []) @
     map (extract_call sv domain) pages \<and>
   length (filter is_extract (snd (incremental_forward sv domain pages))) =
     (if 3 < length pages then length pages + 3 else length pages)"
  by (simp add: forward_eq merge_loop_extracts schema_seed_eq filter_extract_calls)


section \<open>Properties of the crawler of landscape.py\<close>

lemma crawl_url_fetched: "fst (crawl_url client u) = None \<longleftrightarrow> \<not> successful (client u)"
  by (cases "client u")
     (auto simp: crawl_url_def try_scrape_def split: sum.splits)

lemma crawl_url_warns:
  "\<not> successful (client u) \<Longrightarrow> list_ex is_warning (snd (crawl_url client u))"
  by (cases "client u")
     (auto simp: crawl_url_def try_scrape_def split: sum.splits option.splits)

lemma crawl_url_Some_url: "fst (crawl_url client u) = Some p \<Longrightarrow> url p = u"
  by (cases "client u")
     (auto simp: crawl_url_def try_scrape_def split: sum.splits if_splits)

lemma crawl_url_the_url: "successful (client u) \<Longrightarrow> url (the (fst (crawl_url client u))) = u"
proof -
  assume "successful (client u)"
  then obtain p where "fst (crawl_url client u) = Some p"
    using crawl_url_fetched[of client u] by auto
  then show ?thesis using crawl_url_Some_url[of client u p] by simp
qed

lemma crawl_loop_eq:
  "crawl_loop client us pages out =
     (pages @ map (\<lambda>u. the (fst (crawl_url client u))) (filter (\<lambda>u. successful (client u)) us),
      out @ concat (map (\<lambda>u. snd (crawl_url client u)) us))"
proof (induction us arbitrary: pages out)
  case Nil
  then show ?case by simp
next
  case (Cons u us)
  obtain r printed where c: "crawl_url client u = (r, printed)" by (cases "crawl_url client u")
  have r: "r = None \<longleftrightarrow> \<not> successful (client u)"
    using crawl_url_fetched[of client u] c by simp
  show ?case
  proof (cases r)
    case None
    then show ?thesis using c r Cons.IH by simp
  next
    case (Some p)
    then show ?thesis using c r Cons.IH by simp
  qed
qed

lemma crawl_eq:
  "crawl_pages_with_firecrawl client urls =
     (map (\<lambda>u. the (fst (crawl_url client u))) (filter (\<lambda>u. successful (client u)) urls),
      concat (map (\<lambda>u. snd (crawl_url client u)) urls))"
  by (simp add: crawl_pages_with_firecrawl_def crawl_loop_eq)

lemma crawl_urls:
  "map url (fst (crawl_pages_with_firecrawl client urls)) = filter (\<lambda>u. successful (client u)) urls"
proof -
  have "map (\<lambda>u. url (the (fst (crawl_url client u)))) (filter (\<lambda>u. successful (client u)) us) =
        filter (\<lambda>u. successful (client u)) us" for us
    by (induction us) (simp_all add: crawl_url_the_url)
  then show ?thesis by (simp add: crawl_eq o_def)
qed

text \<open>
  Claim C4. The pages \<open>crawl_pages_with_firecrawl\<close> returns are those of the URLs whose
  fetch is successful, one each and in the order of the list, so their number is the
  number of successful fetches; what a URL contributes does not depend on the URLs
  around it (a failure stops nothing); a URL whose fetch is not successful contributes
  no page and prints a warning or an error; and an exception from the client, a falsy
  result, and a result without content are not successful.
\<close>

theorem crawl_skips_failed_urls:
  "map url (fst (crawl_pages_with_firecrawl client urls)) =
     filter (\<lambda>u. successful (client u)) urls \<and>
   length (fst (crawl_pages_with_firecrawl client urls)) =
     length (filter (\<lambda>u. successful (client u)) urls) \<and>
   fst (crawl_pages_with_firecrawl client (us @ [u] @ vs)) =
     fst (crawl_pages_with_firecrawl client us) @
     fst (crawl_pages_with_firecrawl client [u]) @
     fst (crawl_pages_with_firecrawl client vs) \<and>
   (successful (client u) \<or>
      fst (crawl_pages_with_firecrawl client [u]) = [] \<and>
      list_ex is_warning (snd (crawl_pages_with_firecrawl client [u]))) \<and>
   \<not> successful (Raises e) \<and> \<not> successful Falsy \<and>
   \<not> successful (ScrapeResponse None md) \<and> \<not> successful (ScrapeResponse (Some []) md) \<and>
   \<not> successful (DictResult \<lparr>d_markdown = None, d_content = None, d_data = NoData, d_metadata = md\<rparr>)"
proof -
  have "successful (client u) \<or>
      fst (crawl_pages_with_firecrawl client [u]) = [] \<and>
      list_ex is_warning (snd (crawl_pages_with_firecrawl client [u]))"
    using crawl_url_warns[of client u] by (auto simp: crawl_eq)
  moreover have "length (fst (crawl_pages_with_firecrawl client urls)) =
     length (filter (\<lambda>u. successful (client u)) urls)"
    by (simp add: crawl_eq)
  ultimately show ?thesis
    using crawl_urls[of client urls] by (simp add: crawl_eq truthy_def dict_content_def dict_metadata_def split: sum.splits)
qed

section \<open>Properties of the schema/instance pipeline\<close>



lemma extract_instances_eq:
  "extract_instances sv sch domain p tr =
     (instance_of sv sch domain p, tr @ [ExtractInstanceData sch domain (s_text p) (s_url p)])"
  by (simp add: extract_instances_def instance_of_def)

lemma instances_loop_lookup_other:
  "u \<notin> s_url ` set ps \<Longrightarrow>
   map_of (fst (instances_loop sv sch domain ps insts tr)) u = map_of insts u"
  by (induction ps arbitrary: insts tr) (simp_all add: extract_instances_eq update_conv')

lemma instances_loop_lookup:
  "distinct (map s_url ps) \<Longrightarrow> p \<in> set ps \<Longrightarrow>
   map_of (fst (instances_loop sv sch domain ps insts tr)) (s_url p) = Some (instance_of sv sch domain p)"
proof (induction ps arbitrary: insts tr)
  case Nil
  then show ?case by simp
next
  case (Cons q qs)
  show ?case
  proof (cases "p = q")
    case True
    then have "s_url p \<notin> s_url ` set qs" using Cons.prems by auto
    then show ?thesis using True
      by (simp add: extract_instances_eq instances_loop_lookup_other update_conv')
  next
    case False
    then show ?thesis using Cons by (simp add: extract_instances_eq)
  qed
qed

lemma instances_loop_trace:
  "snd (instances_loop sv sch domain ps insts tr) =
     tr @ map (\<lambda>p. ExtractInstanceData sch domain (s_text p) (s_url p)) ps"
  by (induction ps arbitrary: insts tr) (simp_all add: extract_instances_eq)

lemma instances_loop_acc:
  "fst (instances_loop sv sch domain ps insts tr) = fst (instances_loop sv sch domain ps insts [])"
proof (induction ps arbitrary: insts tr)
  case Nil
  then show ?case by simp
next
  case (Cons q qs)
  show ?case
    by (simp add: extract_instances_eq Cons.IH[of _ "tr @ _"] Cons.IH[of _ "[_]"])
qed



lemma schema_forward_eq:
  "schema_forward sv domain ps =
     (case page_summaries ps of
        Inl e \<Rightarrow> (Inl e, [])
      | Inr xs \<Rightarrow>
          (Inr \<lparr>schema = schema_extractor sv domain (pages_content_of xs),
                instances = fst (instances_loop sv (schema_extractor sv domain (pages_content_of xs))
                                   domain ps [] [])\<rparr>,
           ExtractCommonSchema domain (pages_content_of xs) #
           map (\<lambda>p. ExtractInstanceData (schema_extractor sv domain (pages_content_of xs)) domain
                       (s_text p) (s_url p)) ps))"
proof (cases "page_summaries ps")
  case (Inl e)
  then show ?thesis by (simp add: schema_forward_def extract_schema_def)
next
  case (Inr xs)
  let ?sch = "schema_extractor sv domain (pages_content_of xs)"
  let ?tr0 = "[ExtractCommonSchema domain (pages_content_of xs)]"
  have "fst (instances_loop sv ?sch domain ps [] ?tr0) = fst (instances_loop sv ?sch domain ps [] [])"
    by (rule instances_loop_acc)
  then show ?thesis
    using Inr instances_loop_trace[of sv ?sch domain ps "[]" ?tr0]
    by (simp add: schema_forward_def extract_schema_def pages_content_of_def case_prod_beta Let_def)
qed

lemma schema_forward_cases:
  "schema_forward sv domain ps = (Inr r, tr) \<Longrightarrow>
   instances r = fst (instances_loop sv (schema r) domain ps [] [])"
  by (auto simp: schema_forward_eq split: sum.splits)

text \<open>
  Claim C8, as stated, fails: the instances are stored in a dict keyed by URL, so of two
  pages with the same URL only the later one keeps its instance text, and the two orders
  of such pages give different results under the same schema.
\<close>

theorem same_url_pages_interfere:
  "fst (schema_forward echo_services ''AI Writing Tools'' [page_a, page_a']) =
     Inr \<lparr>schema = '':AIWritingTool a owl:Class .'',
          instances = [(''https://jasper.ai'', ''Pricing begins at $39/month.'')]\<rparr> \<and>
   fst (schema_forward echo_services ''AI Writing Tools'' [page_a', page_a]) =
     Inr \<lparr>schema = '':AIWritingTool a owl:Class .'',
          instances = [(''https://jasper.ai'', ''Jasper is an AI writing assistant.'')]\<rparr>"
  by (simp add: schema_forward_def extract_schema_def extract_instances_def echo_services_def
        page_a_def page_a'_def)


text \<open>
  Claim C8, amended. Take two runs of the pipeline whose page lists have pairwise
  distinct URLs and which arrive at the same schema. For a page in both lists, whatever
  the order of the lists and whatever the other pages are, each run stores under the
  page's URL the output of the instance-extraction call for (schema, domain, page
  content, page URL), so the two runs store the same instance text for it.
\<close>

theorem instances_depend_on_page_only:
  assumes "schema_forward sv domain ps = (Inr r, tr)"
    and "schema_forward sv domain qs = (Inr r', tr')"
    and "schema r = schema r'"
    and "distinct (map s_url ps)" and "distinct (map s_url qs)"
    and "p \<in> set ps" and "p \<in> set qs"
  shows "map_of (instances r) (s_url p) =
           Some (instance_extractor sv (schema r) domain (s_text p) (s_url p)) \<and>
         map_of (instances r') (s_url p) = map_of (instances r) (s_url p)"
proof -
  note 1 = schema_forward_cases[OF assms(1)]
  note 2 = schema_forward_cases[OF assms(2)]
  show ?thesis
    using instances_loop_lookup[OF assms(4) assms(6)] instances_loop_lookup[OF assms(5) assms(7)]
    by (simp add: 1 2 assms(3) instance_of_def)
qed

theorem instances_depend_on_page_only_witness:
  "fst (schema_forward echo_services ''AI Writing Tools'' [page_a, page_b, page_c]) =
     Inr \<lparr>schema = '':AIWritingTool a owl:Class .'',
          instances = [(''https://jasper.ai'', ''Jasper is an AI writing assistant.''),
                       (''https://copy.ai'', ''Copy.ai provides AI writing tools.''),
                       (''https://grammarly.com'', ''Grammarly offers writing assistance.'')]\<rparr> \<and>
   fst (schema_forward echo_services ''AI Writing Tools'' [page_c, page_a]) =
     Inr \<lparr>schema = '':AIWritingTool a owl:Class .'',
          instances = [(''https://grammarly.com'', ''Grammarly offers writing assistance.''),
                       (''https://jasper.ai'', ''Jasper is an AI writing assistant.'')]\<rparr> \<and>
   distinct (map s_url [page_a, page_b, page_c]) \<and> distinct (map s_url [page_c, page_a]) \<and>
   page_a \<in> set [page_a, page_b, page_c] \<and> page_a \<in> set [page_c, page_a] \<and>
   map_of [(''https://jasper.ai'', ''Jasper is an AI writing assistant.''),
           (''https://copy.ai'', ''Copy.ai provides AI writing tools.''),
           (''https://grammarly.com'', ''Grammarly offers writing assistance.'')] (s_url page_a) =
     Some (instance_extractor echo_services '':AIWritingTool a owl:Class .'' ''AI Writing Tools''
             (s_text page_a) (s_url page_a)) \<and>
   map_of [(''https://grammarly.com'', ''Grammarly offers writing assistance.''),
           (''https://jasper.ai'', ''Jasper is an AI writing assistant.'')] (s_url page_a) =
   map_of [(''https://jasper.ai'', ''Jasper is an AI writing assistant.''),
           (''https://copy.ai'', ''Copy.ai provides AI writing tools.''),
           (''https://grammarly.com'', ''Grammarly offers writing assistance.'')] (s_url page_a)"
proof -
  let ?r = "\<lparr>schema = '':AIWritingTool a owl:Class .'',
          instances = [(''https://jasper.ai'', ''Jasper is an AI writing assistant.''),
                       (''https://copy.ai'', ''Copy.ai provides AI writing tools.''),
                       (''https://grammarly.com'', ''Grammarly offers writing assistance.'')]\<rparr>"
  let ?r' = "\<lparr>schema = '':AIWritingTool a owl:Class .'',
          instances = [(''https://grammarly.com'', ''Grammarly offers writing assistance.''),
                       (''https://jasper.ai'', ''Jasper is an AI writing assistant.'')]\<rparr>"
  have f1: "fst (schema_forward echo_services ''AI Writing Tools'' [page_a, page_b, page_c]) = Inr ?r"
    by (simp add: schema_forward_def extract_schema_def extract_instances_def echo_services_def
          page_a_def page_b_def page_c_def)
  have f2: "fst (schema_forward echo_services ''AI Writing Tools'' [page_c, page_a]) = Inr ?r'"
    by (simp add: schema_forward_def extract_schema_def extract_instances_def echo_services_def
          page_a_def page_c_def)
  have h1: "schema_forward echo_services ''AI Writing Tools'' [page_a, page_b, page_c] =
      (Inr ?r, snd (schema_forward echo_services ''AI Writing Tools'' [page_a, page_b, page_c]))"
    using f1 by (metis prod.collapse)
  have h2: "schema_forward echo_services ''AI Writing Tools'' [page_c, page_a] =
      (Inr ?r', snd (schema_forward echo_services ''AI Writing Tools'' [page_c, page_a]))"
    using f2 by (metis prod.collapse)
  have h3: "schema ?r = schema ?r'" by simp
  have h4: "distinct (map s_url [page_a, page_b, page_c])"
    by (simp add: page_a_def page_b_def page_c_def)
  have h5: "distinct (map s_url [page_c, page_a])"
    by (simp add: page_a_def page_c_def)
  have h6: "page_a \<in> set [page_a, page_b, page_c]" by simp
  have h7: "page_a \<in> set [page_c, page_a]" by simp
  from instances_depend_on_page_only[OF h1 h2 h3 h4 h5 h6 h7] f1 f2 h4 h5 h6 h7
  show ?thesis by simp
qed

section \<open>Properties of the files written\<close>

lemma split_on_nonempty: "split_on sep s \<noteq> []"
  by (subst split_on.simps) (simp split: list.split)

lemma split_on_line: "sep \<notin> set l \<Longrightarrow> split_on sep (l @ sep # rest) = l # split_on sep rest"
proof -
  assume l: "sep \<notin> set l"
  have d: "dropWhile (\<lambda>c. c \<noteq> sep) (l @ sep # rest) = sep # rest"
  proof -
    have "dropWhile (\<lambda>c. c \<noteq> sep) (l @ sep # rest) = dropWhile (\<lambda>c. c \<noteq> sep) (sep # rest)"
      by (rule dropWhile_append2) (use l in auto)
    then show ?thesis by simp
  qed
  have t: "takeWhile (\<lambda>c. c \<noteq> sep) (l @ sep # rest) = l"
  proof -
    have "takeWhile (\<lambda>c. c \<noteq> sep) (l @ sep # rest) = l @ takeWhile (\<lambda>c. c \<noteq> sep) (sep # rest)"
      by (rule takeWhile_append2) (use l in auto)
    then show ?thesis by simp
  qed
  show ?thesis
    by (subst split_on.simps) (simp only: d t list.case)
qed

lemma split_on_empty: "split_on sep [] = [[]]"
  by (subst split_on.simps) simp

lemma split_on_lines:
  "\<forall>l\<in>set ls. sep \<notin> set l \<Longrightarrow> split_on sep (concat (map (\<lambda>l. l @ [sep]) ls)) = ls @ [[]]"
  by (induction ls) (simp_all add: split_on_line split_on_empty)

lemma split_on_no_sep: "l \<in> set (split_on sep s) \<Longrightarrow> sep \<notin> set l"
proof (induction sep s rule: split_on.induct)
  case (1 sep s)
  show ?case
  proof (cases "dropWhile (\<lambda>c. c \<noteq> sep) s")
    case Nil
    have "split_on sep s = [s]" by (subst split_on.simps) (simp add: Nil)
    moreover from Nil have "sep \<notin> set s" by (auto simp: dropWhile_eq_Nil_conv)
    ultimately show ?thesis using 1(2) by simp
  next
    case (Cons c rest)
    have "split_on sep s = takeWhile (\<lambda>c. c \<noteq> sep) s # split_on sep rest"
      by (subst split_on.simps) (simp add: Cons)
    with 1(2) have "l = takeWhile (\<lambda>c. c \<noteq> sep) s \<or> l \<in> set (split_on sep rest)" by simp
    then show ?thesis
    proof
      assume "l = takeWhile (\<lambda>c. c \<noteq> sep) s"
      then show ?thesis by (auto dest: set_takeWhileD)
    next
      assume "l \<in> set (split_on sep rest)"
      with 1(1)[OF Cons] show ?thesis by simp
    qed
  qed
qed










lemma header_import_filter:
  "filter (mentions ''owl:imports'') (merged_header fn) = [''<> owl:imports <./'' @ fn @ ''> .'']"
  by (simp add: merged_header_def)




lemma header_no_nl: "nl \<notin> set fn \<Longrightarrow> \<forall>l\<in>set (merged_header fn). nl \<notin> set l"
  by (simp add: merged_header_def)

lemma section_no_nl: "nl \<notin> set (fst i) \<Longrightarrow> \<forall>l\<in>set (merged_section i). nl \<notin> set l"
  by (auto simp: merged_section_def dest: split_on_no_sep)

lemma merged_lines:
  assumes "nl \<notin> set fn" "\<forall>i\<in>set insts. nl \<notin> set (fst i)"
  shows "split_on nl (merged_content fn insts) =
           merged_header fn @ concat (map merged_section insts) @ [[]]"
proof -
  have "\<forall>l\<in>set (merged_header fn @ concat (map merged_section insts)). nl \<notin> set l"
    using header_no_nl[OF assms(1)] section_no_nl assms(2) by auto
  from split_on_lines[OF this] show ?thesis
    unfolding merged_content_def by simp
qed


















subsection \<open>The conditions of the amended claim\<close>

text \<open>Two different URLs can give the same instance file name, so that the second file
  replaces the first.\<close>

lemma distinct_urls_one_file_name:
  "''https://copy.ai'' \<noteq> ''https://copy_ai'' \<and>
   instance_file_name ''https://copy.ai'' = ''copy_ai.ttl'' \<and>
   instance_file_name ''https://copy_ai'' = ''copy_ai.ttl''"
  by code_simp

text \<open>A line of a fragment that imports something is not a \<open>@prefix\<close> line: it stays, and
  the merged file then has two import statements.\<close>

lemma fragment_import_line_is_kept:
  "filter (mentions ''owl:imports'')
     (split_on nl (merged_content ''schema.ttl''
        [(''https://copy.ai'', ''<> owl:imports <./other.ttl> .'')])) =
   [''<> owl:imports <./schema.ttl> .'', ''<> owl:imports <./other.ttl> .'']"
proof -
  have "split_on nl (merged_content ''schema.ttl''
        [(''https://copy.ai'', ''<> owl:imports <./other.ttl> .'')]) =
      merged_header ''schema.ttl'' @
      concat (map merged_section [(''https://copy.ai'', ''<> owl:imports <./other.ttl> .'')]) @ [[]]"
    by (rule merged_lines) simp_all
  then show ?thesis
    by (simp add: header_import_filter merged_section_def split_on.simps)
qed

end
